theory Spec2Isabelle
  imports Complex_Main "HOL-Library.Sublist"
begin

section \<open>Data model of \<open>simulation/simulate_sandwich.py\<close>\<close>

text \<open>
  A proxy is a \<open>util.Proxy\<close> object. The simulation compares proxies by identity only
  (\<open>proxy in self.blocked\<close>, \<open>list.remove\<close>), and \<open>_bootstrap\<close> creates the
  \<open>i\<close>-th one under the name \<open>'Proxy %d' % i\<close>, so a proxy is modelled by that index.
  A client carries the counter of \<open>'Client %d' % counter\<close> and its malicious flag.
\<close>

type_synonym proxy = nat

record client =
  client_name :: nat
  malicious :: bool

datatype action =
  ENUMERATE_PROXY | MISS_ENUMERATE_PROXY | EXPOSE_CLIENT
  | PROXY_BLOCK | MISS_PROXY_BLOCK | PROXY_DEATH

text \<open>
  Modelled from the spec: the event class of \<open>util\<close> is not part of the simulation
  module. The spec gives an event as the immutable record
  \<open>{time, action, active_proxy_ids, blocked_proxy_ids, subject_proxy, system_health}\<close>.
  Times and the health percentage are Python floats. Every float is a rational number,
  so both fields are rationals: a time is the value of the scheduler's clock, and the
  health is computed with the rounded operations of the section on floating point.
\<close>

record event =
  time :: rat
  action :: action
  active_proxy_ids :: "proxy list"
  blocked_proxy_ids :: "proxy list"
  subject_proxy :: proxy
  system_health :: rat

text \<open>
  Modelled from the spec: \<open>util.create_event\<close> is not part of the simulation module.
  Every call in the module passes the time, the action, the caller's two proxy lists, the
  proxy concerned and the health, in the order of the record's fields; the event keeps
  the lists as they are at the call.
\<close>

definition create_event ::
  "rat \<Rightarrow> action \<Rightarrow> proxy list \<Rightarrow> proxy list \<Rightarrow> proxy \<Rightarrow> rat \<Rightarrow> event" where
  "create_event t a ps bs p h =
     \<lparr>time = t, action = a, active_proxy_ids = ps, blocked_proxy_ids = bs,
      subject_proxy = p, system_health = h\<rparr>"

text \<open>
  What a call can raise: \<open>env.exit()\<close> ends the process that calls it (\<open>StopProcess\<close>),
  \<open>list.remove\<close> of an absent element raises \<open>ValueError\<close>, a division by a zero
  \<open>VICTIM_SET\<close> raises \<open>ZeroDivisionError\<close>.
\<close>

datatype signal = StopProcess | ValueError | ZeroDivisionError

text \<open>
  The whole state a run works on: the lists of the \<open>Distributor\<close> (\<open>proxies\<close>,
  \<open>blocked\<close>, \<open>events\<close>), the module global \<open>panic_level\<close>, the three lists of the
  \<open>Censor\<close> (its own \<open>proxies\<close>, \<open>blocked\<close> and \<open>events\<close>: \<open>run\<close> hands each
  constructor fresh \<open>[]\<close> lists), the clock \<open>env.now\<close>, the service processes handed to
  \<open>env.process\<close>, the queue of every proxy object, the stream of the module \<open>random\<close>
  with the number of values taken from it so far, the counter of \<open>generate_clients\<close>,
  whether the two long-lived processes have ended, and an exception that left the run.
\<close>

record state =
  proxies :: "proxy list"
  blocked :: "proxy list"
  events :: "event list"
  panic_level :: nat
  censor_proxies :: "proxy list"
  censor_blocked :: "proxy list"
  censor_events :: "event list"
  now :: rat
  processes :: "(proxy \<times> client) list"
  queue :: "proxy \<Rightarrow> client list"
  random_stream :: "nat \<Rightarrow> nat"
  random_pos :: nat
  counter :: nat
  clients_done :: bool
  censor_done :: bool
  failure :: "signal option"

section \<open>The random source\<close>

text \<open>
  \<open>random.randint(a, b)\<close> returns an integer \<open>N\<close> with \<open>a \<le> N \<le> b\<close> and moves the
  stream on; the module only calls it with \<open>a = 0 \<le> b\<close>. \<open>random.choice([True, False])\<close>
  picks the element at a random index below 2. \<open>random.expovariate\<close> only yields a
  delay, which the scheduler turns into clock time; here it just takes one value.
\<close>

definition randint :: "nat \<Rightarrow> nat \<Rightarrow> state \<Rightarrow> nat \<times> state" where
  "randint a b s =
     (a + random_stream s (random_pos s) mod (b - a + 1),
      s\<lparr>random_pos := random_pos s + 1\<rparr>)"

definition choice_bool :: "state \<Rightarrow> bool \<times> state" where
  "choice_bool s =
     ([True, False] ! (random_stream s (random_pos s) mod 2),
      s\<lparr>random_pos := random_pos s + 1\<rparr>)"

definition expovariate :: "state \<Rightarrow> state" where
  "expovariate s = s\<lparr>random_pos := random_pos s + 1\<rparr>"

section \<open>Floating point\<close>

text \<open>
  The health percentage is computed in Python floats, which are IEEE binary64 numbers:
  every operation returns the exact result rounded to the nearest number with a 53-bit
  significand, a tie going to the even significand. \<open>bit_length\<close> is the number of
  binary digits of a natural number, \<open>floor_log2 x\<close> the exponent \<open>e\<close> with
  \<open>2^e \<le> x < 2^(e+1)\<close> for a positive \<open>x\<close>. The exponent range is not modelled: the
  values that occur here are 0 or lie between \<open>2^-53\<close> and 100. The division of two
  \<open>int\<close>s by \<open>/\<close> is the correctly rounded quotient, and the \<open>int\<close>s 1 and 100 become
  the floats 1.0 and 100.0.
\<close>

fun bit_length :: "nat \<Rightarrow> nat" where
  "bit_length n = (if n = 0 then 0 else Suc (bit_length (n div 2)))"

declare bit_length.simps [simp del]

definition pow2 :: "int \<Rightarrow> rat" where
  "pow2 e = (if 0 \<le> e then 2 ^ nat e else 1 / 2 ^ nat (- e))"

definition floor_log2 :: "rat \<Rightarrow> int" where
  "floor_log2 x =
     (if 1 \<le> x then int (bit_length (nat \<lfloor>x\<rfloor>)) - 1
      else - int (bit_length (nat (\<lceil>1 / x\<rceil> - 1))))"

definition round_half_even :: "rat \<Rightarrow> int" where
  "round_half_even y =
     (let f = \<lfloor>y\<rfloor>; r = y - of_int f
      in if r < 1 / 2 then f else if 1 / 2 < r then f + 1 else if even f then f else f + 1)"

definition round_double :: "rat \<Rightarrow> rat" where
  "round_double x =
     (if x = 0 then 0
      else let e = floor_log2 \<bar>x\<bar> - 52
           in of_int (round_half_even (x / pow2 e)) * pow2 e)"

definition float_div :: "rat \<Rightarrow> rat \<Rightarrow> rat" where
  "float_div x y = round_double (x / y)"

definition float_sub :: "rat \<Rightarrow> rat \<Rightarrow> rat" where
  "float_sub x y = round_double (x - y)"

definition float_mul :: "rat \<Rightarrow> rat \<Rightarrow> rat" where
  "float_mul x y = round_double (x * y)"

section \<open>Distributor\<close>

definition bootstrap :: "nat \<Rightarrow> proxy list" where
  "bootstrap num_proxies = [0..<num_proxies]"

definition add_event :: "event \<Rightarrow> state \<Rightarrow> state" where
  "add_event e s = s\<lparr>events := events s @ [e]\<rparr>"

text \<open>\<open>self.env.process(proxy.service(client))\<close>: one more process under the scheduler.\<close>

definition process :: "proxy \<Rightarrow> client \<Rightarrow> state \<Rightarrow> state" where
  "process p c s = s\<lparr>processes := processes s @ [(p, c)]\<rparr>"

text \<open>\<open>sorted(ps, key=lambda p: len(p.queue), reverse=True)\<close>: stable, longest queue first.\<close>

definition sorted_by_queue :: "state \<Rightarrow> proxy list \<Rightarrow> proxy list" where
  "sorted_by_queue s ps = sort_key (\<lambda>p. - int (length (queue s p))) ps"

text \<open>
  \<open>Distributor.assign\<close>. \<open>util.VICTIM_SET\<close> is a constant of a module that is not part
  of the simulation file, so it is the parameter \<open>VICTIM_SET\<close>, a natural number;
  \<open>(int)(len(self.proxies)/util.VICTIM_SET)\<close> is then the integer quotient (the float
  quotient of two integers below \<open>2^53\<close> truncates to it).
\<close>

definition assign :: "nat \<Rightarrow> client \<Rightarrow> state \<Rightarrow> (signal + proxy) \<times> state" where
  "assign VICTIM_SET client s =
     (if length (proxies s) = 0 then (Inl StopProcess, s)
      else
        let (random_index_1, s1) = randint 0 (length (proxies s) - 1) s;
            (random_index_2, s2) = randint 0 (length (proxies s1) - 1) s1;
            random_proxy_1 = proxies s2 ! random_index_1;
            random_proxy_2 = proxies s2 ! random_index_2
        in
          if panic_level s2 > 0 then
            let sorted_proxies = sorted_by_queue s2 (proxies s2) in
            if VICTIM_SET = 0 then (Inl ZeroDivisionError, s2)
            else
              let victim_size = length (proxies s2) div VICTIM_SET in
              if victim_size > 0 then
                let (random_index_1, s3) = randint 0 (victim_size - 1) s2;
                    random_proxy_1 = proxies s3 ! random_index_1
                in (Inr random_proxy_1, process random_proxy_1 client s3)
              else (Inr (proxies s2 ! 0), s2)
          else if length (queue s2 random_proxy_1) > length (queue s2 random_proxy_2)
            then (Inr random_proxy_2, process random_proxy_2 client s2)
            else (Inr random_proxy_1, process random_proxy_1 client s2))"

text \<open>
  \<open>Distributor.notify_block\<close>. The list \<open>blocked\<close> is appended to before
  \<open>self.proxies.remove(proxy)\<close> can raise. \<open>env.exit()\<close> after \<open>PROXY_DEATH\<close>
  is the result \<open>Inl StopProcess\<close>.
\<close>

text \<open>
  \<open>(1-len(self.blocked)/(len(self.proxies)+len(self.blocked))) * 100\<close>, as it stands
  on lines 127 and 137: a float division, a float subtraction and a float multiplication.
  Both lines are reached with a non-empty blocked list, so the divisor is not 0.
\<close>

definition health :: "state \<Rightarrow> rat" where
  "health s =
     float_mul
       (float_sub 1
          (float_div (of_nat (length (blocked s)))
             (of_nat (length (proxies s) + length (blocked s)))))
       100"

definition notify_block :: "proxy \<Rightarrow> state \<Rightarrow> (signal + unit) \<times> state" where
  "notify_block proxy s =
     (let t = now s in
      if proxy \<in> set (blocked s) then
        (Inr (),
         s\<lparr>events := events s @
              [create_event t MISS_PROXY_BLOCK (proxies s) (blocked s) proxy (health s)]\<rparr>)
      else
        let s1 = s\<lparr>blocked := blocked s @ [proxy]\<rparr> in
        if proxy \<notin> set (proxies s1) then (Inl ValueError, s1)
        else
          let s2 = s1\<lparr>proxies := remove1 proxy (proxies s1)\<rparr> in
          if length (proxies s2) = 0 then
            (Inl StopProcess,
             s2\<lparr>events := events s2 @
                  [create_event t PROXY_DEATH (proxies s2) (blocked s2) proxy 0]\<rparr>)
          else
            let system_health = health s2;
                s3 = (if length (blocked s2) > length (proxies s2)
                      then s2\<lparr>panic_level := panic_level s2 + 1\<rparr> else s2)
            in (Inr (),
                s3\<lparr>events := events s3 @
                     [create_event t PROXY_BLOCK (proxies s3) (blocked s3) proxy
                        system_health]\<rparr>))"

section \<open>Censor\<close>

definition enumerate_censor :: "proxy \<Rightarrow> state \<Rightarrow> state" where
  "enumerate_censor proxy s =
     (let t = now s; system_health = 0 in
      if proxy \<notin> set (censor_proxies s) \<and> proxy \<notin> set (censor_blocked s) then
        let s1 = s\<lparr>censor_proxies := censor_proxies s @ [proxy]\<rparr> in
        s1\<lparr>censor_events := censor_events s1 @
             [create_event t ENUMERATE_PROXY (censor_proxies s1) (censor_blocked s1) proxy
                system_health]\<rparr>
      else
        s\<lparr>censor_events := censor_events s @
            [create_event t MISS_ENUMERATE_PROXY (censor_proxies s) (censor_blocked s) proxy
               system_health]\<rparr>)"

text \<open>
  Modelled from the spec: \<open>util.Proxy.block\<close> is not part of the simulation module. Each
  proxy is constructed with the distributor as an argument, and the spec has the censor's
  block of a proxy notify the distributor via \<open>notify_block\<close>; the proxy's own blocked
  flag is read nowhere in the module and is left out.
\<close>

definition block :: "proxy \<Rightarrow> state \<Rightarrow> (signal + unit) \<times> state" where
  "block p s = notify_block p s"

text \<open>
  One pass of the \<open>while(True)\<close> loop of \<open>Censor._block\<close>, up to its \<open>yield\<close>. An
  exception from \<open>block_proxy.block()\<close> leaves the generator: \<open>StopProcess\<close> ends the
  censor's process, anything else leaves the run.
\<close>

definition censor_block :: "state \<Rightarrow> state" where
  "censor_block s =
     (if length (censor_proxies s) > 0 then
        let s1 = s\<lparr>censor_proxies := sorted_by_queue s (censor_proxies s)\<rparr>;
            block_proxy = censor_proxies s1 ! 0
        in case block block_proxy s1 of
             (Inl StopProcess, s2) \<Rightarrow> s2\<lparr>censor_done := True\<rparr>
           | (Inl e, s2) \<Rightarrow> s2\<lparr>censor_done := True, failure := Some e\<rparr>
           | (Inr u, s2) \<Rightarrow>
               let s3 = s2\<lparr>censor_blocked := censor_blocked s2 @ [block_proxy]\<rparr>;
                   s4 = s3\<lparr>censor_proxies := remove1 block_proxy (censor_proxies s3)\<rparr>
               in expovariate s4
      else expovariate s)"

section \<open>Client arrivals\<close>

definition client_arrival :: "nat \<Rightarrow> nat \<Rightarrow> state \<Rightarrow> (signal + unit) \<times> state" where
  "client_arrival VICTIM_SET name s =
     (let arrival = now s;
          (m, s1) = choice_bool s;
          client = \<lparr>client_name = name, malicious = m\<rparr>
      in case assign VICTIM_SET client s1 of
           (Inl e, s2) \<Rightarrow> (Inl e, s2)
         | (Inr proxy, s2) \<Rightarrow>
             if m then (Inr (), enumerate_censor proxy s2)
             else if proxy \<in> set (censor_proxies s2) then
               (Inr (),
                add_event
                  (create_event arrival EXPOSE_CLIENT (proxies s2) (blocked s2) proxy 0) s2)
             else (Inr (), s2))"

text \<open>
  One pass of the loop of \<open>generate_clients\<close>, from its test to its \<open>yield\<close>. When the
  test fails the generator returns.
\<close>

definition generate_clients :: "nat \<Rightarrow> state \<Rightarrow> state" where
  "generate_clients VICTIM_SET s =
     (if length (proxies s) > 0 then
        case client_arrival VICTIM_SET (counter s) s of
          (Inl StopProcess, s1) \<Rightarrow> s1\<lparr>clients_done := True\<rparr>
        | (Inl e, s1) \<Rightarrow> s1\<lparr>clients_done := True, failure := Some e\<rparr>
        | (Inr u, s1) \<Rightarrow> (expovariate s1)\<lparr>counter := counter s1 + 1\<rparr>
      else s\<lparr>clients_done := True\<rparr>)"

section \<open>A run under the scheduler\<close>

text \<open>
  Modelled from the spec: the scheduler (\<open>simpy.Environment\<close>), the service processes
  of the proxies (\<open>util.Proxy.service\<close>) and the sampled delays are outside the module.
  What they decide is which of the two long-lived processes resumes next, by how much the
  clock moves in between, and how the queues of the proxies change. A schedule is a list
  of such steps, and the theorems about runs hold for every schedule. As the spec has
  it, the clock never moves back and all processes run one at a time, each up to its next
  suspension. A process that has ended is not resumed, and nothing runs after an
  exception has left \<open>env.run()\<close>.
\<close>

datatype step = Arrive | Block | Advance rat | Service proxy "client list"

fun resume :: "nat \<Rightarrow> step \<Rightarrow> state \<Rightarrow> state" where
  "resume VICTIM_SET Arrive s =
     (if failure s \<noteq> None \<or> clients_done s then s else generate_clients VICTIM_SET s)"
| "resume VICTIM_SET Block s =
     (if failure s \<noteq> None \<or> censor_done s then s else censor_block s)"
| "resume VICTIM_SET (Advance d) s =
     (if failure s \<noteq> None \<or> d < 0 then s else s\<lparr>now := now s + d\<rparr>)"
| "resume VICTIM_SET (Service p q) s =
     (if failure s \<noteq> None then s else s\<lparr>queue := (queue s)(p := q)\<rparr>)"

fun exec :: "nat \<Rightarrow> step list \<Rightarrow> state \<Rightarrow> state" where
  "exec VICTIM_SET [] s = s"
| "exec VICTIM_SET (a # as) s = exec VICTIM_SET as (resume VICTIM_SET a s)"

text \<open>
  The state \<open>run\<close> sets up: \<open>panic_level = 0\<close>, the seeded stream, a new environment at
  time 0, the bootstrapped distributor and the censor, every list else empty.
\<close>

definition init :: "(nat \<Rightarrow> nat) \<Rightarrow> nat \<Rightarrow> state" where
  "init seed num_proxies =
     \<lparr>proxies = bootstrap num_proxies, blocked = [], events = [], panic_level = 0,
      censor_proxies = [], censor_blocked = [], censor_events = [], now = 0,
      processes = [], queue = (\<lambda>p. []), random_stream = seed, random_pos = 0,
      counter = 0, clients_done = False, censor_done = False, failure = None\<rparr>"

text \<open>
  \<open>run\<close>: \<open>env.run()\<close> returns once both long-lived processes have ended, and the value
  is \<open>distributor.events + censor.events\<close>.
\<close>

datatype 'a outcome = Pending | Raised signal | Returned 'a

definition run :: "(nat \<Rightarrow> nat) \<Rightarrow> nat \<Rightarrow> nat \<Rightarrow> step list \<Rightarrow> event list outcome" where
  "run seed num_proxies VICTIM_SET schedule =
     (let s = exec VICTIM_SET schedule (init seed num_proxies) in
      case failure s of
        Some e \<Rightarrow> Raised e
      | None \<Rightarrow>
          if clients_done s \<and> censor_done s then Returned (events s @ censor_events s)
          else Pending)"

section \<open>Auxiliary definitions for the theorems\<close>

text \<open>The number of \<open>PROXY_DEATH\<close> events in the two logs of a state.\<close>

definition deaths :: "state \<Rightarrow> nat" where
  "deaths s = length (filter (\<lambda>e. action e = PROXY_DEATH) (events s @ censor_events s))"

text \<open>
  Concrete inputs: a stream of zeros, a stream that starts with given values, a client,
  and a distributor state with given active and blocked lists, panic level and queue
  lengths.
\<close>

definition zero_seed :: "nat \<Rightarrow> nat" where
  "zero_seed n = 0"

definition a_client :: client where
  "a_client = \<lparr>client_name = 7, malicious = False\<rparr>"

definition example_state ::
  "proxy list \<Rightarrow> proxy list \<Rightarrow> nat \<Rightarrow> (proxy \<times> nat) list \<Rightarrow> (nat \<Rightarrow> nat) \<Rightarrow> state" where
  "example_state ps bs pl ql seed =
     (init seed 0)\<lparr>proxies := ps, blocked := bs, panic_level := pl,
        queue := (\<lambda>p. replicate (case map_of ql p of None \<Rightarrow> 0 | Some k \<Rightarrow> k) a_client)\<rparr>"

definition index_seed :: "nat list \<Rightarrow> nat \<Rightarrow> nat" where
  "index_seed xs n = (if n < length xs then xs ! n else 0)"

text \<open>
  Invariants of a run: each log is ordered by time, never ahead of the clock, and holds
  only the actions its owner records; the active list has no duplicates and shares no
  proxy with the blocked list; a \<open>PROXY_DEATH\<close> is in the log exactly when a run that
  started with a proxy has none left, and it is then the last event of the distributor.
\<close>

definition logs_ordered :: "state \<Rightarrow> bool" where
  "logs_ordered s \<longleftrightarrow>
     sorted (map time (events s)) \<and> sorted (map time (censor_events s)) \<and>
     (\<forall>e\<in>set (events s). time e \<le> now s \<and>
        action e \<in> {EXPOSE_CLIENT, PROXY_BLOCK, MISS_PROXY_BLOCK, PROXY_DEATH}) \<and>
     (\<forall>e\<in>set (censor_events s). time e \<le> now s \<and>
        action e \<in> {ENUMERATE_PROXY, MISS_ENUMERATE_PROXY})"

definition sets_disjoint :: "state \<Rightarrow> bool" where
  "sets_disjoint s \<longleftrightarrow> distinct (proxies s) \<and> set (proxies s) \<inter> set (blocked s) = {}"

definition death_recorded :: "nat \<Rightarrow> state \<Rightarrow> bool" where
  "death_recorded num_proxies s \<longleftrightarrow>
     (censor_done s \<longrightarrow> failure s \<noteq> None \<or> deaths s = 1) \<and>
     (deaths s = 0 \<and> (proxies s = [] \<longleftrightarrow> num_proxies = 0) \<or>
      deaths s = 1 \<and> 0 < num_proxies \<and> proxies s = [] \<and> censor_done s \<and> events s \<noteq> [] \<and>
      action (last (events s)) = PROXY_DEATH \<and> system_health (last (events s)) = 0)"

section \<open>Single operations\<close>

text \<open>Floor and ceiling of a fraction of two numerals, for the evaluation of floats.\<close>

lemma floor_rat_numeral: "\<lfloor>numeral a / numeral b :: rat\<rfloor> = numeral a div numeral b"
  by (metis floor_divide_of_int_eq of_int_numeral)

lemma ceiling_rat_numeral:
  "\<lceil>numeral a / numeral b :: rat\<rceil> = - (- numeral a div numeral b)"
  using floor_divide_of_int_eq [of "- numeral a" "numeral b", where ?'a = rat]
  by (simp add: ceiling_def)

lemma nb_miss:
  "p \<in> set (blocked s) \<Longrightarrow>
   notify_block p s =
     (Inr (), s\<lparr>events := events s @
        [create_event (now s) MISS_PROXY_BLOCK (proxies s) (blocked s) p (health s)]\<rparr>)"
  by (simp add: notify_block_def)

lemma nb_error:
  "p \<notin> set (blocked s) \<Longrightarrow> p \<notin> set (proxies s) \<Longrightarrow>
   notify_block p s = (Inl ValueError, s\<lparr>blocked := blocked s @ [p]\<rparr>)"
  by (simp add: notify_block_def)

lemma nb_death:
  "p \<notin> set (blocked s) \<Longrightarrow> p \<in> set (proxies s) \<Longrightarrow> remove1 p (proxies s) = [] \<Longrightarrow>
   notify_block p s =
     (Inl StopProcess,
      s\<lparr>proxies := [], blocked := blocked s @ [p],
        events := events s @
          [create_event (now s) PROXY_DEATH [] (blocked s @ [p]) p 0]\<rparr>)"
  by (simp add: notify_block_def)

lemma nb_block:
  "p \<notin> set (blocked s) \<Longrightarrow> p \<in> set (proxies s) \<Longrightarrow> remove1 p (proxies s) \<noteq> [] \<Longrightarrow>
   notify_block p s =
     (Inr (),
      s\<lparr>proxies := remove1 p (proxies s), blocked := blocked s @ [p],
        events := events s @
          [create_event (now s) PROXY_BLOCK (remove1 p (proxies s)) (blocked s @ [p]) p
             (health (s\<lparr>proxies := remove1 p (proxies s), blocked := blocked s @ [p]\<rparr>))],
        panic_level :=
          (if length (blocked s @ [p]) > length (remove1 p (proxies s))
           then panic_level s + 1 else panic_level s)\<rparr>)"
  by (simp add: notify_block_def health_def Let_def)

lemma assign_frame:
  "proxies (snd (assign VS c s)) = proxies s"
  "blocked (snd (assign VS c s)) = blocked s"
  "events (snd (assign VS c s)) = events s"
  "panic_level (snd (assign VS c s)) = panic_level s"
  "censor_proxies (snd (assign VS c s)) = censor_proxies s"
  "censor_blocked (snd (assign VS c s)) = censor_blocked s"
  "censor_events (snd (assign VS c s)) = censor_events s"
  "now (snd (assign VS c s)) = now s"
  "queue (snd (assign VS c s)) = queue s"
  "clients_done (snd (assign VS c s)) = clients_done s"
  "censor_done (snd (assign VS c s)) = censor_done s"
  "failure (snd (assign VS c s)) = failure s"
  by (simp_all add: assign_def randint_def process_def Let_def)

text \<open>
  The indices \<open>assign\<close> reads at are inside the active list, so that no read is out of
  range: the proxy it returns is an active one.
\<close>

lemma assign_member:
  assumes "fst (assign VS c s) = Inr p"
  shows "p \<in> set (proxies s)"
proof -
  let ?n = "length (proxies s)"
  from assms have n: "?n > 0"
    by (auto simp: assign_def)
  have m: "\<And>x. x mod ?n < ?n" using n by simp
  have v: "\<And>x. 0 < ?n div VS \<Longrightarrow> x mod (?n div VS) < ?n"
    by (meson div_le_dividend le_trans linorder_not_less mod_less_divisor)
  from assms n show ?thesis
    by (auto simp: assign_def randint_def process_def Let_def m v split: if_splits)
qed

lemma enumerate_frame:
  "proxies (enumerate_censor p s) = proxies s"
  "blocked (enumerate_censor p s) = blocked s"
  "events (enumerate_censor p s) = events s"
  "panic_level (enumerate_censor p s) = panic_level s"
  "now (enumerate_censor p s) = now s"
  "clients_done (enumerate_censor p s) = clients_done s"
  "censor_done (enumerate_censor p s) = censor_done s"
  "failure (enumerate_censor p s) = failure s"
  by (simp_all add: enumerate_censor_def Let_def)

lemma enumerate_log:
  "\<exists>e. censor_events (enumerate_censor p s) = censor_events s @ [e] \<and> time e = now s \<and>
       action e \<in> {ENUMERATE_PROXY, MISS_ENUMERATE_PROXY}"
  by (simp add: enumerate_censor_def Let_def create_event_def)

lemma client_arrival_cases:
  "\<exists>c s2. s2 = snd (assign VS c (s\<lparr>random_pos := random_pos s + 1\<rparr>)) \<and>
     (snd (client_arrival VS n s) = s2 \<or>
      (\<exists>p. snd (client_arrival VS n s) = enumerate_censor p s2) \<or>
      (\<exists>p. snd (client_arrival VS n s) =
         add_event (create_event (now s) EXPOSE_CLIENT (proxies s2) (blocked s2) p 0) s2))"
  by (auto simp: client_arrival_def choice_bool_def Let_def split_def split: sum.split)

lemma client_arrival_frame:
  "proxies (snd (client_arrival VS n s)) = proxies s"
  "blocked (snd (client_arrival VS n s)) = blocked s"
  "panic_level (snd (client_arrival VS n s)) = panic_level s"
  "now (snd (client_arrival VS n s)) = now s"
  "censor_done (snd (client_arrival VS n s)) = censor_done s"
  using client_arrival_cases [of VS s n]
  by (auto simp: assign_frame enumerate_frame add_event_def)

lemma client_arrival_logs:
  "\<exists>es. events (snd (client_arrival VS n s)) = events s @ es \<and>
      (\<forall>e\<in>set es. time e = now s \<and> action e = EXPOSE_CLIENT)"
  "\<exists>cs. censor_events (snd (client_arrival VS n s)) = censor_events s @ cs \<and>
      (\<forall>e\<in>set cs. time e = now s \<and> action e \<in> {ENUMERATE_PROXY, MISS_ENUMERATE_PROXY})"
proof -
  from client_arrival_cases [of VS s n] obtain c s2 where
    s2: "s2 = snd (assign VS c (s\<lparr>random_pos := random_pos s + 1\<rparr>))" and
    d: "snd (client_arrival VS n s) = s2 \<or>
        (\<exists>p. snd (client_arrival VS n s) = enumerate_censor p s2) \<or>
        (\<exists>p. snd (client_arrival VS n s) =
           add_event (create_event (now s) EXPOSE_CLIENT (proxies s2) (blocked s2) p 0) s2)"
    by blast
  have f: "events s2 = events s" "censor_events s2 = censor_events s" "now s2 = now s"
    by (simp_all add: s2 assign_frame)
  from d show "\<exists>es. events (snd (client_arrival VS n s)) = events s @ es \<and>
      (\<forall>e\<in>set es. time e = now s \<and> action e = EXPOSE_CLIENT)"
  proof (elim disjE exE)
    fix p assume "snd (client_arrival VS n s) =
         add_event (create_event (now s) EXPOSE_CLIENT (proxies s2) (blocked s2) p 0) s2"
    then show ?thesis by (simp add: f add_event_def create_event_def)
  qed (simp_all add: f enumerate_frame)
  from d show "\<exists>cs. censor_events (snd (client_arrival VS n s)) = censor_events s @ cs \<and>
      (\<forall>e\<in>set cs. time e = now s \<and> action e \<in> {ENUMERATE_PROXY, MISS_ENUMERATE_PROXY})"
  proof (elim disjE exE)
    fix p assume "snd (client_arrival VS n s) = enumerate_censor p s2"
    with enumerate_log [of p s2] show ?thesis by (auto simp: f)
  qed (auto simp: f add_event_def)
qed

lemma generate_clients_frame:
  "proxies (generate_clients VS s) = proxies s"
  "blocked (generate_clients VS s) = blocked s"
  "panic_level (generate_clients VS s) = panic_level s"
  "now (generate_clients VS s) = now s"
  "censor_done (generate_clients VS s) = censor_done s"
  by (simp_all add: generate_clients_def expovariate_def split_def client_arrival_frame
      split: sum.split signal.split)

lemma generate_clients_logs:
  "\<exists>es. events (generate_clients VS s) = events s @ es \<and>
      (\<forall>e\<in>set es. time e = now s \<and> action e = EXPOSE_CLIENT) \<and>
      (proxies s = [] \<longrightarrow> es = [])"
  "\<exists>cs. censor_events (generate_clients VS s) = censor_events s @ cs \<and>
      (\<forall>e\<in>set cs. time e = now s \<and> action e \<in> {ENUMERATE_PROXY, MISS_ENUMERATE_PROXY}) \<and>
      (proxies s = [] \<longrightarrow> cs = [])"
proof -
  have e: "proxies s \<noteq> [] \<Longrightarrow>
      events (generate_clients VS s) = events (snd (client_arrival VS (counter s) s)) \<and>
      censor_events (generate_clients VS s) =
        censor_events (snd (client_arrival VS (counter s) s))"
    by (simp add: generate_clients_def expovariate_def split_def
        split: sum.split signal.split)
  show "\<exists>es. events (generate_clients VS s) = events s @ es \<and>
      (\<forall>e\<in>set es. time e = now s \<and> action e = EXPOSE_CLIENT) \<and>
      (proxies s = [] \<longrightarrow> es = [])"
  proof (cases "proxies s = []")
    case True
    then show ?thesis by (simp add: generate_clients_def)
  next
    case False
    with e client_arrival_logs(1) [of VS "counter s" s] show ?thesis by simp
  qed
  show "\<exists>cs. censor_events (generate_clients VS s) = censor_events s @ cs \<and>
      (\<forall>e\<in>set cs. time e = now s \<and> action e \<in> {ENUMERATE_PROXY, MISS_ENUMERATE_PROXY}) \<and>
      (proxies s = [] \<longrightarrow> cs = [])"
  proof (cases "proxies s = []")
    case True
    then show ?thesis by (simp add: generate_clients_def)
  next
    case False
    with e client_arrival_logs(2) [of VS "counter s" s] show ?thesis by simp
  qed
qed

text \<open>What one pass of the censor's loop does to the distributor.\<close>

lemma censor_block_cases:
  "(proxies (censor_block s) = proxies s \<and> blocked (censor_block s) = blocked s \<and>
    panic_level (censor_block s) = panic_level s \<and> events (censor_block s) = events s \<and>
    censor_done (censor_block s) = censor_done s)
   \<or> (\<exists>p e. p \<in> set (blocked s) \<and>
        proxies (censor_block s) = proxies s \<and> blocked (censor_block s) = blocked s \<and>
        panic_level (censor_block s) = panic_level s \<and>
        events (censor_block s) = events s @ [e] \<and> time e = now s \<and>
        action e = MISS_PROXY_BLOCK \<and> censor_done (censor_block s) = censor_done s)
   \<or> (\<exists>p. p \<notin> set (blocked s) \<and> p \<notin> set (proxies s) \<and>
        proxies (censor_block s) = proxies s \<and> blocked (censor_block s) = blocked s @ [p] \<and>
        panic_level (censor_block s) = panic_level s \<and> events (censor_block s) = events s \<and>
        failure (censor_block s) = Some ValueError)
   \<or> (\<exists>p e. p \<notin> set (blocked s) \<and> p \<in> set (proxies s) \<and>
        proxies (censor_block s) = [] \<and> remove1 p (proxies s) = [] \<and>
        blocked (censor_block s) = blocked s @ [p] \<and>
        panic_level (censor_block s) = panic_level s \<and>
        events (censor_block s) = events s @ [e] \<and> time e = now s \<and>
        action e = PROXY_DEATH \<and> system_health e = 0 \<and> censor_done (censor_block s))
   \<or> (\<exists>p e. p \<notin> set (blocked s) \<and> p \<in> set (proxies s) \<and>
        proxies (censor_block s) = remove1 p (proxies s) \<and> proxies (censor_block s) \<noteq> [] \<and>
        blocked (censor_block s) = blocked s @ [p] \<and>
        events (censor_block s) = events s @ [e] \<and> time e = now s \<and>
        action e = PROXY_BLOCK \<and> censor_done (censor_block s) = censor_done s \<and>
        panic_level (censor_block s) =
          (if length (blocked (censor_block s)) > length (proxies (censor_block s))
           then panic_level s + 1 else panic_level s))"
proof (cases "censor_proxies s = []")
  case True
  then show ?thesis by (simp add: censor_block_def expovariate_def)
next
  case False
  define s1 where "s1 = s\<lparr>censor_proxies := sorted_by_queue s (censor_proxies s)\<rparr>"
  define p where "p = censor_proxies s1 ! 0"
  have f: "proxies s1 = proxies s" "blocked s1 = blocked s" "events s1 = events s"
    "panic_level s1 = panic_level s" "now s1 = now s" "censor_done s1 = censor_done s"
    by (simp_all add: s1_def)
  note cb = censor_block_def block_def Let_def s1_def p_def expovariate_def create_event_def
  consider (miss) "p \<in> set (blocked s1)"
    | (err) "p \<notin> set (blocked s1)" "p \<notin> set (proxies s1)"
    | (death) "p \<notin> set (blocked s1)" "p \<in> set (proxies s1)" "remove1 p (proxies s1) = []"
    | (blk) "p \<notin> set (blocked s1)" "p \<in> set (proxies s1)" "remove1 p (proxies s1) \<noteq> []"
    by blast
  then show ?thesis
  proof cases
    case miss
    with False show ?thesis
      by (auto simp: cb nb_miss)
  next
    case err
    with False show ?thesis
      by (simp add: cb nb_error)
  next
    case death
    with False show ?thesis
      by (simp add: cb nb_death)
  next
    case blk
    with False show ?thesis
      by (simp add: cb nb_block)
  qed
qed

lemma censor_block_frame:
  "now (censor_block s) = now s"
  "censor_events (censor_block s) = censor_events s"
  by (simp_all add: censor_block_def block_def notify_block_def expovariate_def Let_def
      split: sum.split signal.split)

lemma resume_now: "now s \<le> now (resume VS a s)"
  by (cases a) (simp_all add: generate_clients_frame censor_block_frame)

lemma resume_events:
  "\<exists>es. events (resume VS a s) = events s @ es \<and>
     (\<forall>e\<in>set es. time e = now s \<and>
        action e \<in> {EXPOSE_CLIENT, PROXY_BLOCK, MISS_PROXY_BLOCK, PROXY_DEATH})"
proof (cases a)
  case Arrive
  with generate_clients_logs(1) [of VS s] show ?thesis by auto
next
  case Block
  with censor_block_cases [of s] show ?thesis by auto
qed simp_all

lemma resume_censor_events:
  "\<exists>cs. censor_events (resume VS a s) = censor_events s @ cs \<and>
     (\<forall>e\<in>set cs. time e = now s \<and> action e \<in> {ENUMERATE_PROXY, MISS_ENUMERATE_PROXY})"
proof (cases a)
  case Arrive
  with generate_clients_logs(2) [of VS s] show ?thesis by auto
qed (simp_all add: censor_block_frame)

text \<open>What one step does to the two sets and to the panic level.\<close>

lemma resume_sets:
  "(proxies (resume VS a s) = proxies s \<and> blocked (resume VS a s) = blocked s \<and>
    panic_level (resume VS a s) = panic_level s)
   \<or> (\<exists>p. p \<notin> set (blocked s) \<and> p \<notin> set (proxies s) \<and>
        proxies (resume VS a s) = proxies s \<and> blocked (resume VS a s) = blocked s @ [p] \<and>
        panic_level (resume VS a s) = panic_level s)
   \<or> (a = Block \<and> (\<exists>p. p \<notin> set (blocked s) \<and> p \<in> set (proxies s) \<and>
        proxies (resume VS a s) = remove1 p (proxies s) \<and>
        blocked (resume VS a s) = blocked s @ [p] \<and>
        (panic_level (resume VS a s) = panic_level s \<or>
         panic_level (resume VS a s) = panic_level s + 1 \<and>
         length (proxies (resume VS a s)) < length (blocked (resume VS a s)))))"
proof (cases a)
  case Arrive
  then show ?thesis by (simp add: generate_clients_frame)
next
  case Block
  show ?thesis
  proof (cases "failure s \<noteq> None \<or> censor_done s")
    case True
    with Block show ?thesis by auto
  next
    case False
    with Block have r: "resume VS a s = censor_block s" by simp
    from censor_block_cases [of s] show ?thesis
      unfolding r using Block
      by (elim disjE exE conjE) (simp_all split: if_splits)
  qed
qed simp_all

section \<open>Assignment\<close>

lemmas model_defs =
  init_def bootstrap_def generate_clients_def client_arrival_def choice_bool_def assign_def
  randint_def process_def enumerate_censor_def create_event_def expovariate_def
  censor_block_def block_def notify_block_def sorted_by_queue_def Let_def
  add_event_def upt_rec example_state_def zero_seed_def a_client_def index_seed_def

lemmas float_defs =
  health_def float_mul_def float_sub_def float_div_def round_double_def round_half_even_def
  floor_log2_def pow2_def bit_length.simps floor_rat_numeral ceiling_rat_numeral

text \<open>
  Claim C5. In default mode (\<open>panic_level = 0\<close>) a call of \<open>assign\<close> with at least one
  active proxy takes two values from the random stream, each an index into the whole
  active list (so the same proxy can come up twice); the client goes to the drawn proxy
  with the strictly shorter queue, and to the first-drawn one when the two queues are
  equally long. The service process of the chosen proxy is started. That the indices are
  uniformly distributed is the contract of \<open>random.randint\<close>; the model says that each
  is the next value of the stream, reduced to the range \<open>[0, len)\<close>.
\<close>

theorem assign_default_mode:
  assumes "panic_level s = 0" and "proxies s \<noteq> []"
  shows "let n = length (proxies s);
             i1 = random_stream s (random_pos s) mod n;
             i2 = random_stream s (random_pos s + 1) mod n;
             p1 = proxies s ! i1;
             p2 = proxies s ! i2;
             chosen = (if length (queue s p2) < length (queue s p1) then p2 else p1)
         in i1 < n \<and> i2 < n \<and>
            assign VICTIM_SET c s =
              (Inr chosen,
               s\<lparr>random_pos := random_pos s + 2,
                 processes := processes s @ [(chosen, c)]\<rparr>) \<and>
            length (queue s chosen) = min (length (queue s p1)) (length (queue s p2)) \<and>
            (length (queue s p1) = length (queue s p2) \<longrightarrow> chosen = p1)"
  using assms by (simp add: assign_def randint_def process_def Let_def)

text \<open>
  Queues of lengths 5 and 3: the proxy with 3 is chosen whichever is drawn first. Queues
  of lengths 3 and 3: the first-drawn proxy is chosen.
\<close>

theorem assign_default_mode_witness:
  "fst (assign 2 a_client
          (example_state [0, 1] [] 0 [(0, 5), (1, 3)] (index_seed [0, 1]))) = Inr 1 \<and>
   fst (assign 2 a_client
          (example_state [0, 1] [] 0 [(0, 5), (1, 3)] (index_seed [1, 0]))) = Inr 1 \<and>
   fst (assign 2 a_client
          (example_state [0, 1] [] 0 [(0, 3), (1, 3)] (index_seed [0, 1]))) = Inr 0 \<and>
   fst (assign 2 a_client
          (example_state [0, 1] [] 0 [(0, 3), (1, 3)] (index_seed [1, 0]))) = Inr 1"
  using
    assign_default_mode
      [of "example_state [0, 1] [] 0 [(0, 5), (1, 3)] (index_seed [0, 1])" 2 a_client]
    assign_default_mode
      [of "example_state [0, 1] [] 0 [(0, 5), (1, 3)] (index_seed [1, 0])" 2 a_client]
    assign_default_mode
      [of "example_state [0, 1] [] 0 [(0, 3), (1, 3)] (index_seed [0, 1])" 2 a_client]
    assign_default_mode
      [of "example_state [0, 1] [] 0 [(0, 3), (1, 3)] (index_seed [1, 0])" 2 a_client]
  by (simp add: example_state_def init_def index_seed_def Let_def)

text \<open>
  Claim C10. In panic mode (\<open>panic_level > 0\<close>, at least one active proxy, a positive
  \<open>VICTIM_SET\<close>) the two index draws of the default mode are still made first: the call
  takes three values from the stream when \<open>victim_size > 0\<close> and two when
  \<open>victim_size = 0\<close>, and the index used is the third value. The first two values have
  no influence on the proxy returned: any stream that agrees on the third value gives
  the same proxy.
\<close>

theorem assign_panic_mode_draws:
  assumes "panic_level s > 0" and "proxies s \<noteq> []" and "VICTIM_SET > 0"
  shows "let victim_size = length (proxies s) div VICTIM_SET;
             chosen = proxies s !
               (if victim_size > 0 then random_stream s (random_pos s + 2) mod victim_size
                else 0)
         in fst (assign VICTIM_SET c s) = Inr chosen \<and>
            random_pos (snd (assign VICTIM_SET c s)) =
              random_pos s + (if victim_size > 0 then 3 else 2) \<and>
            (\<forall>g. g (random_pos s + 2) = random_stream s (random_pos s + 2) \<longrightarrow>
                 fst (assign VICTIM_SET c (s\<lparr>random_stream := g\<rparr>)) = Inr chosen)"
  using assms by (simp add: assign_def randint_def process_def Let_def)

theorem assign_panic_mode_draws_witness:
  "fst (assign 2 a_client
          (example_state [5, 6, 7, 8] [0, 1, 2, 3, 4] 1 [] (index_seed [3, 2, 1]))) = Inr 6 \<and>
   random_pos (snd (assign 2 a_client
          (example_state [5, 6, 7, 8] [0, 1, 2, 3, 4] 1 [] (index_seed [3, 2, 1])))) = 3 \<and>
   fst (assign 2 a_client
          (example_state [5, 6, 7, 8] [0, 1, 2, 3, 4] 1 [] (index_seed [0, 0, 1]))) = Inr 6 \<and>
   fst (assign 2 a_client
          (example_state [8] [0, 1, 2, 3, 4] 1 [] (index_seed [0, 0, 1]))) = Inr 8 \<and>
   random_pos (snd (assign 2 a_client
          (example_state [8] [0, 1, 2, 3, 4] 1 [] (index_seed [0, 0, 1])))) = 2"
  using
    assign_panic_mode_draws
      [of "example_state [5, 6, 7, 8] [0, 1, 2, 3, 4] 1 [] (index_seed [3, 2, 1])" 2 a_client]
    assign_panic_mode_draws
      [of "example_state [8] [0, 1, 2, 3, 4] 1 [] (index_seed [0, 0, 1])" 2 a_client]
  by (simp add: example_state_def init_def index_seed_def Let_def assign_def randint_def
      process_def)

text \<open>
  Claim C1. In panic mode with \<open>victim_size > 0\<close> the proxy should come from the first
  \<open>victim_size\<close> entries of the active proxies sorted by queue length, longest first.
  The code computes that sorted list and then indexes the unsorted list
  \<open>self.proxies\<close>. A run with nine proxies and \<open>VICTIM_SET = 2\<close>: two clients are
  assigned to proxies 7 and 8 and wait in their queues, then proxies 0 to 4 are
  enumerated and blocked, which raises the panic level to 1. The active proxies are now
  5, 6, 7, 8 with queue lengths 0, 0, 1, 1, so the two most loaded are 7 and 8, and
  \<open>assign\<close> returns proxy 5 or proxy 6, whichever index is drawn.
\<close>

theorem assign_panic_indexes_unsorted_list:
  "let s = exec 2
             [Arrive, Service 7 [\<lparr>client_name = 0, malicious = False\<rparr>],
              Arrive, Service 8 [\<lparr>client_name = 1, malicious = False\<rparr>],
              Arrive, Block, Arrive, Block, Arrive, Block, Arrive, Block, Arrive, Block]
             (init (index_seed [1, 7, 7, 0, 1, 8, 8]) 9)
   in proxies s = [5, 6, 7, 8] \<and> blocked s = [0, 1, 2, 3, 4] \<and> panic_level s = 1 \<and>
      map (\<lambda>p. length (queue s p)) (proxies s) = [0, 0, 1, 1] \<and>
      length (proxies s) div 2 = 2 \<and>
      take 2 (sorted_by_queue s (proxies s)) = [7, 8] \<and>
      fst (assign 2 a_client s) = Inr 5 \<and>
      fst (assign 2 a_client
             (s\<lparr>random_stream := index_seed [0, 0, 1], random_pos := 0\<rparr>)) = Inr 6"
  by (simp add: model_defs)

text \<open>
  Claim C3. In panic mode with \<open>victim_size = 0\<close> the client should go to the most
  loaded active proxy. The code returns \<open>self.proxies[0]\<close>, the first of the unsorted
  list. A run with five proxies and \<open>VICTIM_SET = 3\<close>: a client is assigned to proxy 4
  and waits in its queue, then proxies 0 to 2 are enumerated and blocked, which raises
  the panic level to 1. The active proxies are now 3 and 4 with queue lengths 0 and 1,
  \<open>victim_size\<close> is 0, the most loaded proxy is 4, and \<open>assign\<close> returns proxy 3.
\<close>

theorem assign_panic_small_set_first_proxy:
  "let s = exec 3
             [Arrive, Service 4 [\<lparr>client_name = 0, malicious = False\<rparr>],
              Arrive, Block, Arrive, Block, Arrive, Block]
             (init (index_seed [1, 4, 4]) 5)
   in proxies s = [3, 4] \<and> blocked s = [0, 1, 2] \<and> panic_level s = 1 \<and>
      map (\<lambda>p. length (queue s p)) (proxies s) = [0, 1] \<and>
      length (proxies s) div 3 = 0 \<and>
      sorted_by_queue s (proxies s) = [4, 3] \<and>
      fst (assign 3 a_client s) = Inr 3"
  by (simp add: model_defs)

text \<open>
  Claim C4. Every branch of \<open>assign\<close> should start the service process of the chosen
  proxy. The branch for panic mode with \<open>victim_size = 0\<close> returns the proxy without a
  call of \<open>env.process\<close>. In the run with three proxies, \<open>VICTIM_SET = 2\<close> and a
  stream of zeros, two arrivals and two blocks leave proxy 2 alone and raise the panic
  level to 1; the next call of \<open>assign\<close> returns proxy 2 and leaves the list of
  processes as it was, so the third client of that run is reported to the censor for
  proxy 2 and never served.
\<close>

theorem assign_panic_small_set_no_service:
  "let s = exec 2 [Arrive, Block, Arrive, Block] (init zero_seed 3);
       s' = exec 2 [Arrive, Block, Arrive, Block, Arrive] (init zero_seed 3)
   in proxies s = [2] \<and> blocked s = [0, 1] \<and> panic_level s = 1 \<and>
      length (proxies s) div 2 = 0 \<and>
      fst (assign 2 a_client s) = Inr 2 \<and>
      processes (snd (assign 2 a_client s)) = processes s \<and>
      map fst (processes s) = [0, 1] \<and>
      map fst (processes s') = [0, 1] \<and>
      map subject_proxy (censor_events s') = [0, 1, 2]"
  by (simp add: model_defs)

section \<open>Block notification\<close>

text \<open>
  Claim C8, as the code has it. When \<open>notify_block\<close> is called for a proxy that is
  already in the blocked list, it appends exactly one \<open>MISS_PROXY_BLOCK\<close> event whose
  health is the expression \<open>(1 - |blocked| / (|active| + |blocked|)) * 100\<close> over the
  current lists, evaluated in floating point (the quotient, the difference and the
  product each rounded to the nearest double), changes nothing else in the state (so
  both lists stay as they are) and returns normally, without \<open>env.exit()\<close>. Hence two
  calls in a row for an active proxy append one \<open>PROXY_BLOCK\<close> (or \<open>PROXY_DEATH\<close>,
  when the proxy was the last active one) and then one \<open>MISS_PROXY_BLOCK\<close>.
\<close>

theorem notify_block_already_blocked:
  "(p \<in> set (blocked s) \<longrightarrow>
      notify_block p s =
        (Inr (),
         s\<lparr>events := events s @
            [\<lparr>time = now s, action = MISS_PROXY_BLOCK, active_proxy_ids = proxies s,
              blocked_proxy_ids = blocked s, subject_proxy = p,
              system_health =
                float_mul
                  (float_sub 1
                     (float_div (of_nat (length (blocked s)))
                        (of_nat (length (proxies s) + length (blocked s)))))
                  100\<rparr>]\<rparr>)) \<and>
   (p \<in> set (proxies s) \<and> p \<notin> set (blocked s) \<longrightarrow>
      (\<exists>e1 e2.
         events (snd (notify_block p (snd (notify_block p s)))) = events s @ [e1, e2] \<and>
         action e1 = (if remove1 p (proxies s) = [] then PROXY_DEATH else PROXY_BLOCK) \<and>
         action e2 = MISS_PROXY_BLOCK \<and>
         subject_proxy e1 = p \<and> subject_proxy e2 = p \<and>
         fst (notify_block p (snd (notify_block p s))) = Inr () \<and>
         proxies (snd (notify_block p (snd (notify_block p s)))) =
           proxies (snd (notify_block p s)) \<and>
         blocked (snd (notify_block p (snd (notify_block p s)))) =
           blocked (snd (notify_block p s))))"
proof (intro conjI impI)
  assume "p \<in> set (blocked s)"
  then show "notify_block p s =
        (Inr (),
         s\<lparr>events := events s @
            [\<lparr>time = now s, action = MISS_PROXY_BLOCK, active_proxy_ids = proxies s,
              blocked_proxy_ids = blocked s, subject_proxy = p,
              system_health =
                float_mul
                  (float_sub 1
                     (float_div (of_nat (length (blocked s)))
                        (of_nat (length (proxies s) + length (blocked s)))))
                  100\<rparr>]\<rparr>)"
    by (simp add: nb_miss create_event_def health_def)
next
  assume a: "p \<in> set (proxies s) \<and> p \<notin> set (blocked s)"
  let ?s1 = "snd (notify_block p s)"
  have b: "p \<in> set (blocked ?s1)"
    using a by (cases "remove1 p (proxies s) = []") (simp_all add: nb_death nb_block)
  have e1: "\<exists>e1. events ?s1 = events s @ [e1] \<and>
      action e1 = (if remove1 p (proxies s) = [] then PROXY_DEATH else PROXY_BLOCK) \<and>
      subject_proxy e1 = p"
    using a
    by (cases "remove1 p (proxies s) = []") (simp_all add: nb_death nb_block create_event_def)
  from e1 show "\<exists>e1 e2.
         events (snd (notify_block p ?s1)) = events s @ [e1, e2] \<and>
         action e1 = (if remove1 p (proxies s) = [] then PROXY_DEATH else PROXY_BLOCK) \<and>
         action e2 = MISS_PROXY_BLOCK \<and>
         subject_proxy e1 = p \<and> subject_proxy e2 = p \<and>
         fst (notify_block p ?s1) = Inr () \<and>
         proxies (snd (notify_block p ?s1)) = proxies ?s1 \<and>
         blocked (snd (notify_block p ?s1)) = blocked ?s1"
    by (auto simp: nb_miss [OF b] create_event_def)
qed

theorem notify_block_already_blocked_witness:
  "map action (events (snd (notify_block 0 (snd (notify_block 0 (init zero_seed 2))))))
     = [PROXY_BLOCK, MISS_PROXY_BLOCK] \<and>
   map system_health (events (snd (notify_block 0 (snd (notify_block 0 (init zero_seed 2))))))
     = [50, 50] \<and>
   map action (events (snd (notify_block 0 (snd (notify_block 0 (init zero_seed 1))))))
     = [PROXY_DEATH, MISS_PROXY_BLOCK] \<and>
   map system_health (events (snd (notify_block 0 (snd (notify_block 0 (init zero_seed 1))))))
     = [0, 0] \<and>
   fst (notify_block 0 (snd (notify_block 0 (init zero_seed 1)))) = Inr () \<and>
   map system_health (events (snd (notify_block 0
       (exec 2 [Arrive, Block, Arrive, Block, Arrive, Block, Arrive, Block]
          (init zero_seed 5)))))
     = [80, 60, 40, 5629499534213119 / 281474976710656,
        5629499534213119 / 281474976710656]"
  using notify_block_already_blocked [of 0 "snd (notify_block 0 (init zero_seed 2))"]
    notify_block_already_blocked [of 0 "init zero_seed 2"]
    notify_block_already_blocked [of 0 "init zero_seed 1"]
    notify_block_already_blocked
      [of 0 "exec 2 [Arrive, Block, Arrive, Block, Arrive, Block, Arrive, Block]
          (init zero_seed 5)"]
  by (simp add: model_defs float_defs)

text \<open>
  Claim C8, as stated, fails where the floating-point result is not the exact value of
  the formula. In the run with five proxies in which proxies 0 to 3 are enumerated and
  blocked, one proxy is active and four are blocked; a further \<open>notify_block\<close> for
  proxy 0 records \<open>MISS_PROXY_BLOCK\<close> with the health 19.999999999999996, which is
  \<open>5629499534213119 / 2^48\<close>, and not \<open>(1 - 4 / 5) * 100 = 20\<close>.
\<close>

theorem miss_proxy_block_health_is_rounded:
  "let s = exec 2 [Arrive, Block, Arrive, Block, Arrive, Block, Arrive, Block]
             (init zero_seed 5);
       e = last (events (snd (notify_block 0 s)))
   in proxies s = [4] \<and> blocked s = [0, 1, 2, 3] \<and>
      action e = MISS_PROXY_BLOCK \<and>
      system_health e = 5629499534213119 / 281474976710656 \<and>
      (1 - of_nat (length (blocked s)) /
         of_nat (length (proxies s) + length (blocked s))) * 100 = (20 :: rat) \<and>
      system_health e \<noteq>
        (1 - of_nat (length (blocked s)) /
           of_nat (length (proxies s) + length (blocked s))) * 100"
  by (simp add: model_defs float_defs)

section \<open>Runs\<close>

lemma append_time_sorted:
  assumes "sorted (map time xs)" and "\<forall>e\<in>set xs. time e \<le> t" and "\<forall>e\<in>set ys. time e = t"
  shows "sorted (map time (xs @ ys))"
proof -
  have "sorted (map time ys)"
    using assms(3) by (induction ys) auto
  with assms show ?thesis
    by (auto simp: sorted_append)
qed

lemma resume_logs_ordered:
  assumes "logs_ordered s"
  shows "logs_ordered (resume VS a s)"
proof -
  from resume_events [of VS a s] obtain es where
    es: "events (resume VS a s) = events s @ es"
      "\<forall>e\<in>set es. time e = now s \<and>
         action e \<in> {EXPOSE_CLIENT, PROXY_BLOCK, MISS_PROXY_BLOCK, PROXY_DEATH}"
    by blast
  from resume_censor_events [of VS a s] obtain cs where
    cs: "censor_events (resume VS a s) = censor_events s @ cs"
      "\<forall>e\<in>set cs. time e = now s \<and> action e \<in> {ENUMERATE_PROXY, MISS_ENUMERATE_PROXY}"
    by blast
  note n = resume_now [of s VS a]
  have 1: "sorted (map time (events s @ es))"
    using assms es(2) by (intro append_time_sorted [of _ "now s"]) (auto simp: logs_ordered_def)
  have 2: "sorted (map time (censor_events s @ cs))"
    using assms cs(2) by (intro append_time_sorted [of _ "now s"]) (auto simp: logs_ordered_def)
  have 3: "\<forall>e\<in>set (events s @ es). time e \<le> now (resume VS a s) \<and>
        action e \<in> {EXPOSE_CLIENT, PROXY_BLOCK, MISS_PROXY_BLOCK, PROXY_DEATH}"
    using assms es(2) n by (fastforce simp: logs_ordered_def)
  have 4: "\<forall>e\<in>set (censor_events s @ cs). time e \<le> now (resume VS a s) \<and>
        action e \<in> {ENUMERATE_PROXY, MISS_ENUMERATE_PROXY}"
    using assms cs(2) n by (fastforce simp: logs_ordered_def)
  from 1 2 3 4 show ?thesis
    unfolding logs_ordered_def es(1) cs(1) by blast
qed

lemma exec_logs_ordered: "logs_ordered s \<Longrightarrow> logs_ordered (exec VS as s)"
  by (induction as arbitrary: s) (simp_all add: resume_logs_ordered)

lemma init_logs_ordered: "logs_ordered (init seed n)"
  by (simp add: logs_ordered_def init_def)

lemma exec_events_prefix:
  "prefix (events s) (events (exec VS as s))"
  "prefix (censor_events s) (censor_events (exec VS as s))"
proof (induction as arbitrary: s)
  case Nil
  { case 1 show ?case by simp }
  { case 2 show ?case by simp }
next
  case (Cons a as)
  { case 1
    from resume_events [of VS a s] have "prefix (events s) (events (resume VS a s))"
      by (auto simp: prefix_def)
    with Cons.IH(1) [of "resume VS a s"] show ?case
      by (auto intro: prefix_order.order_trans) }
  { case 2
    from resume_censor_events [of VS a s]
    have "prefix (censor_events s) (censor_events (resume VS a s))"
      by (auto simp: prefix_def)
    with Cons.IH(2) [of "resume VS a s"] show ?case
      by (auto intro: prefix_order.order_trans) }
qed

lemma resume_sets_disjoint:
  assumes "sets_disjoint s"
  shows "sets_disjoint (resume VS a s)"
  using resume_sets [of VS a s] assms
  by (elim disjE exE conjE) (auto simp: sets_disjoint_def)

lemma exec_sets_disjoint: "sets_disjoint s \<Longrightarrow> sets_disjoint (exec VS as s)"
  by (induction as arbitrary: s) (simp_all add: resume_sets_disjoint)

lemma init_sets_disjoint: "sets_disjoint (init seed n)"
  by (simp add: sets_disjoint_def init_def bootstrap_def)

lemma resume_blocked_grows: "set (blocked s) \<subseteq> set (blocked (resume VS a s))"
  using resume_sets [of VS a s] by auto

lemma exec_blocked_grows: "set (blocked s) \<subseteq> set (blocked (exec VS as s))"
proof (induction as arbitrary: s)
  case Nil
  show ?case by simp
next
  case (Cons a as)
  from resume_blocked_grows [of s VS a] Cons.IH [of "resume VS a s"] show ?case
    by auto
qed

lemma resume_panic_level: "panic_level s \<le> panic_level (resume VS a s)"
  using resume_sets [of VS a s] by auto

lemma exec_panic_level: "panic_level s \<le> panic_level (exec VS as s)"
proof (induction as arbitrary: s)
  case Nil
  show ?case by simp
next
  case (Cons a as)
  from resume_panic_level [of s VS a] Cons.IH [of "resume VS a s"] show ?case
    by simp
qed

lemma notify_block_panic_level:
  "panic_level (snd (notify_block p s)) = panic_level s \<or>
   panic_level (snd (notify_block p s)) = panic_level s + 1 \<and>
   p \<in> set (proxies s) \<and> p \<notin> set (blocked s) \<and>
   proxies (snd (notify_block p s)) = remove1 p (proxies s) \<and>
   blocked (snd (notify_block p s)) = blocked s @ [p] \<and>
   length (proxies (snd (notify_block p s))) < length (blocked (snd (notify_block p s)))"
proof -
  consider (miss) "p \<in> set (blocked s)"
    | (err) "p \<notin> set (blocked s)" "p \<notin> set (proxies s)"
    | (death) "p \<notin> set (blocked s)" "p \<in> set (proxies s)" "remove1 p (proxies s) = []"
    | (blk) "p \<notin> set (blocked s)" "p \<in> set (proxies s)" "remove1 p (proxies s) \<noteq> []"
    by blast
  then show ?thesis
  proof cases
    case miss
    then show ?thesis by (simp add: nb_miss)
  next
    case err
    then show ?thesis by (simp add: nb_error)
  next
    case death
    then show ?thesis by (simp add: nb_death)
  next
    case blk
    then show ?thesis by (simp add: nb_block)
  qed
qed

lemma deaths_append:
  "events t = events s @ es \<Longrightarrow> censor_events t = censor_events s @ cs \<Longrightarrow>
   deaths t = deaths s + length (filter (\<lambda>e. action e = PROXY_DEATH) es)
     + length (filter (\<lambda>e. action e = PROXY_DEATH) cs)"
  by (simp add: deaths_def)

lemma resume_failed: "failure s \<noteq> None \<Longrightarrow> resume VS a s = s"
  by (cases a) auto

text \<open>A step either records no death and keeps the active list (non-)empty, or it is the
  censor's block of the last active proxy.\<close>

lemma resume_death_cases:
  "(deaths (resume VS a s) = deaths s \<and> (proxies (resume VS a s) = [] \<longleftrightarrow> proxies s = []) \<and>
    (censor_done (resume VS a s) \<longrightarrow> censor_done s \<or> failure (resume VS a s) \<noteq> None))
   \<or> (proxies s \<noteq> [] \<and> proxies (resume VS a s) = [] \<and> censor_done (resume VS a s) \<and>
       deaths (resume VS a s) = deaths s + 1 \<and> events (resume VS a s) \<noteq> [] \<and>
       action (last (events (resume VS a s))) = PROXY_DEATH \<and>
       system_health (last (events (resume VS a s))) = 0)"
proof (cases a)
  case Arrive
  from generate_clients_logs(1) [of VS s] obtain es where
    es: "events (generate_clients VS s) = events s @ es"
      "\<forall>e\<in>set es. time e = now s \<and> action e = EXPOSE_CLIENT"
    by blast
  from generate_clients_logs(2) [of VS s] obtain cs where
    cs: "censor_events (generate_clients VS s) = censor_events s @ cs"
      "\<forall>e\<in>set cs. time e = now s \<and> action e \<in> {ENUMERATE_PROXY, MISS_ENUMERATE_PROXY}"
    by blast
  have "filter (\<lambda>e. action e = PROXY_DEATH) es = []"
    using es(2) by (auto simp: filter_empty_conv)
  moreover have "filter (\<lambda>e. action e = PROXY_DEATH) cs = []"
    using cs(2) by (auto simp: filter_empty_conv)
  ultimately have "deaths (generate_clients VS s) = deaths s"
    using deaths_append [OF es(1) cs(1)] by simp
  with Arrive show ?thesis
    by (simp add: generate_clients_frame)
next
  case Block
  show ?thesis
  proof (cases "failure s \<noteq> None \<or> censor_done s")
    case True
    with Block show ?thesis by auto
  next
    case False
    with Block have r: "resume VS a s = censor_block s" by simp
    have c: "censor_events (censor_block s) = censor_events s @ []"
      by (simp add: censor_block_frame)
    let ?P = "\<lambda>t. (deaths t = deaths s \<and> (proxies t = [] \<longleftrightarrow> proxies s = []) \<and>
        (censor_done t \<longrightarrow> censor_done s \<or> failure t \<noteq> None))
      \<or> (proxies s \<noteq> [] \<and> proxies t = [] \<and> censor_done t \<and>
        deaths t = deaths s + 1 \<and> events t \<noteq> [] \<and>
        action (last (events t)) = PROXY_DEATH \<and> system_health (last (events t)) = 0)"
    from censor_block_cases [of s] have "?P (censor_block s)"
    proof (elim disjE exE conjE)
      fix p e
      assume "events (censor_block s) = events s @ [e]" "action e = PROXY_DEATH"
        "system_health e = 0" "p \<in> set (proxies s)" "proxies (censor_block s) = []"
        "censor_done (censor_block s)"
      then show "?P (censor_block s)"
        using deaths_append [of "censor_block s" s "[e]" "[]"] c by auto
    next
      fix p e
      assume "events (censor_block s) = events s @ [e]" "action e = MISS_PROXY_BLOCK"
        "proxies (censor_block s) = proxies s" "censor_done (censor_block s) = censor_done s"
      then show "?P (censor_block s)"
        using deaths_append [of "censor_block s" s "[e]" "[]"] c by auto
    next
      fix p e
      assume "events (censor_block s) = events s @ [e]" "action e = PROXY_BLOCK"
        "proxies (censor_block s) \<noteq> []" "p \<in> set (proxies s)"
        "censor_done (censor_block s) = censor_done s"
      then show "?P (censor_block s)"
        using deaths_append [of "censor_block s" s "[e]" "[]"] c by auto
    next
      fix p
      assume "events (censor_block s) = events s" "proxies (censor_block s) = proxies s"
        "failure (censor_block s) = Some ValueError"
      then show "?P (censor_block s)"
        using deaths_append [of "censor_block s" s "[]" "[]"] c by auto
    next
      assume "events (censor_block s) = events s" "proxies (censor_block s) = proxies s"
        "censor_done (censor_block s) = censor_done s"
      then show "?P (censor_block s)"
        using deaths_append [of "censor_block s" s "[]" "[]"] c by auto
    qed
    then show ?thesis by (simp only: r)
  qed
qed (simp_all add: deaths_def)

lemma resume_after_death:
  assumes "proxies s = []" and "censor_done s"
  shows "events (resume VS a s) = events s \<and> censor_events (resume VS a s) = censor_events s \<and>
         proxies (resume VS a s) = [] \<and> censor_done (resume VS a s)"
proof (cases a)
  case Arrive
  with assms generate_clients_logs [of VS s] show ?thesis
    by (auto simp: generate_clients_frame)
qed (use assms in simp_all)

lemma exec_after_death:
  "proxies s = [] \<Longrightarrow> censor_done s \<Longrightarrow>
   events (exec VS as s) = events s \<and> censor_events (exec VS as s) = censor_events s"
proof (induction as arbitrary: s)
  case Nil
  show ?case by simp
next
  case (Cons a as)
  from resume_after_death [OF Cons.prems, of VS a] Cons.IH [of "resume VS a s"]
  show ?case by simp
qed

lemma resume_death_recorded:
  assumes "death_recorded n s"
  shows "death_recorded n (resume VS a s)"
proof (cases "failure s \<noteq> None")
  case True
  with assms show ?thesis by (simp add: resume_failed)
next
  case nf: False
  show ?thesis
  proof (cases "deaths s = 0")
    case True
    with assms nf have z: "proxies s = [] \<longleftrightarrow> n = 0" and nd: "\<not> censor_done s"
      by (auto simp: death_recorded_def)
    from resume_death_cases [of VS a s] True z nd show ?thesis
      by (auto simp: death_recorded_def)
  next
    case False
    with assms have d: "deaths s = 1" "0 < n" "proxies s = []" "censor_done s" "events s \<noteq> []"
      "action (last (events s)) = PROXY_DEATH" "system_health (last (events s)) = 0"
      by (auto simp: death_recorded_def)
    from resume_after_death [OF d(3,4), of VS a] d show ?thesis
      by (simp add: death_recorded_def deaths_def)
  qed
qed

lemma exec_death_recorded: "death_recorded n s \<Longrightarrow> death_recorded n (exec VS as s)"
  by (induction as arbitrary: s) (simp_all add: resume_death_recorded)

lemma init_death_recorded: "death_recorded n (init seed n)"
  by (simp add: death_recorded_def init_def deaths_def bootstrap_def)

section \<open>Properties of runs\<close>

text \<open>
  Claim C6. The panic level never goes down in a run, whatever the schedule. A step of
  the run changes it only when it is the censor's block of a proxy that \<open>notify_block\<close>
  moves from the active to the blocked list, and then by exactly one and with more
  blocked than active proxies after the move; the same holds of any single call of
  \<open>notify_block\<close>. No other operation of the distributor or the censor changes it.
\<close>

theorem panic_level_only_grows_at_block:
  "panic_level s \<le> panic_level (exec VICTIM_SET schedule s) \<and>
   (panic_level (resume VICTIM_SET a s) = panic_level s \<or>
    a = Block \<and> panic_level (resume VICTIM_SET a s) = panic_level s + 1 \<and>
    (\<exists>p. p \<in> set (proxies s) \<and> p \<notin> set (blocked s) \<and>
         proxies (resume VICTIM_SET a s) = remove1 p (proxies s) \<and>
         blocked (resume VICTIM_SET a s) = blocked s @ [p]) \<and>
    length (proxies (resume VICTIM_SET a s)) < length (blocked (resume VICTIM_SET a s))) \<and>
   (panic_level (snd (notify_block p s)) = panic_level s \<or>
    panic_level (snd (notify_block p s)) = panic_level s + 1 \<and>
    p \<in> set (proxies s) \<and> p \<notin> set (blocked s) \<and>
    proxies (snd (notify_block p s)) = remove1 p (proxies s) \<and>
    blocked (snd (notify_block p s)) = blocked s @ [p] \<and>
    length (proxies (snd (notify_block p s))) < length (blocked (snd (notify_block p s)))) \<and>
   panic_level (snd (assign VICTIM_SET c s)) = panic_level s \<and>
   panic_level (snd (client_arrival VICTIM_SET k s)) = panic_level s \<and>
   panic_level (enumerate_censor p s) = panic_level s \<and>
   panic_level (add_event e s) = panic_level s"
proof -
  have "panic_level (resume VICTIM_SET a s) = panic_level s \<or>
    a = Block \<and> panic_level (resume VICTIM_SET a s) = panic_level s + 1 \<and>
    (\<exists>p. p \<in> set (proxies s) \<and> p \<notin> set (blocked s) \<and>
         proxies (resume VICTIM_SET a s) = remove1 p (proxies s) \<and>
         blocked (resume VICTIM_SET a s) = blocked s @ [p]) \<and>
    length (proxies (resume VICTIM_SET a s)) < length (blocked (resume VICTIM_SET a s))"
    using resume_sets [of VICTIM_SET a s] by (elim disjE exE conjE) auto
  then show ?thesis
    using exec_panic_level [of s VICTIM_SET schedule] notify_block_panic_level [of p s]
    by (simp add: assign_frame client_arrival_frame enumerate_frame add_event_def)
qed

theorem panic_level_only_grows_at_block_witness:
  "panic_level (exec 2 [Arrive, Block, Arrive] (init zero_seed 3)) = 0 \<and>
   panic_level (resume 2 Block (exec 2 [Arrive, Block, Arrive] (init zero_seed 3))) = 1 \<and>
   proxies (exec 2 [Arrive, Block, Arrive] (init zero_seed 3)) = [1, 2] \<and>
   blocked (exec 2 [Arrive, Block, Arrive] (init zero_seed 3)) = [0] \<and>
   proxies (resume 2 Block (exec 2 [Arrive, Block, Arrive] (init zero_seed 3))) = [2] \<and>
   blocked (resume 2 Block (exec 2 [Arrive, Block, Arrive] (init zero_seed 3))) = [0, 1] \<and>
   panic_level (exec 2 [Arrive, Block, Arrive, Block, Arrive, Block, Arrive]
     (init zero_seed 3)) = 1"
  using panic_level_only_grows_at_block
    [of "exec 2 [Arrive, Block, Arrive] (init zero_seed 3)" 2 "[Block, Arrive, Block, Arrive]"
      Block 1 a_client 0 "create_event 0 EXPOSE_CLIENT [] [] 0 0"]
  by (simp add: model_defs)

text \<open>
  Claim C7. In every state a run can reach, at every boundary between operations, no
  proxy is in both the active and the blocked list of the distributor; and a proxy that
  is in the blocked list stays there and is never in the active list again, however the
  run goes on.
\<close>

theorem active_and_blocked_disjoint:
  "let s = exec VICTIM_SET schedule (init seed num_proxies);
       s' = exec VICTIM_SET later s
   in set (proxies s) \<inter> set (blocked s) = {} \<and>
      (\<forall>p\<in>set (blocked s). p \<in> set (blocked s') \<and> p \<notin> set (proxies s'))"
proof -
  define s where "s = exec VICTIM_SET schedule (init seed num_proxies)"
  define s' where "s' = exec VICTIM_SET later s"
  have d: "sets_disjoint s"
    unfolding s_def by (intro exec_sets_disjoint init_sets_disjoint)
  then have d': "sets_disjoint s'"
    unfolding s'_def by (rule exec_sets_disjoint)
  have g: "set (blocked s) \<subseteq> set (blocked s')"
    unfolding s'_def by (rule exec_blocked_grows)
  from d d' g have "set (proxies s) \<inter> set (blocked s) = {} \<and>
      (\<forall>p\<in>set (blocked s). p \<in> set (blocked s') \<and> p \<notin> set (proxies s'))"
    by (auto simp: sets_disjoint_def)
  then show ?thesis
    by (simp add: s_def s'_def Let_def)
qed

theorem active_and_blocked_disjoint_witness:
  "proxies (exec 2 [Arrive, Block] (init zero_seed 3)) = [1, 2] \<and>
   blocked (exec 2 [Arrive, Block] (init zero_seed 3)) = [0] \<and>
   proxies (exec 2 [Arrive, Block, Arrive, Block, Arrive] (init zero_seed 3)) = [2] \<and>
   blocked (exec 2 [Arrive, Block, Arrive, Block, Arrive] (init zero_seed 3)) = [0, 1] \<and>
   0 \<notin> set (proxies (exec 2 [Arrive, Block, Arrive] (exec 2 [Arrive, Block] (init zero_seed 3))))"
  using active_and_blocked_disjoint [of 2 "[Arrive, Block]" zero_seed 3 "[Arrive, Block, Arrive]"]
  by (simp add: model_defs)

text \<open>
  Claim C2, as the code has it. The distributor and the censor are each constructed with
  an event list of their own. Each of the two logs is append-only and ordered by
  non-decreasing event time; the distributor's holds the \<open>EXPOSE_CLIENT\<close>,
  \<open>PROXY_BLOCK\<close>, \<open>MISS_PROXY_BLOCK\<close> and \<open>PROXY_DEATH\<close> events, the censor's the
  \<open>ENUMERATE_PROXY\<close> and \<open>MISS_ENUMERATE_PROXY\<close> events; and \<open>run\<close> returns the
  distributor's log followed by the censor's log.
\<close>

theorem run_returns_two_logs:
  "let s = exec VICTIM_SET schedule (init seed num_proxies);
       s' = exec VICTIM_SET later s
   in prefix (events s) (events s') \<and> prefix (censor_events s) (censor_events s') \<and>
      sorted (map time (events s)) \<and> sorted (map time (censor_events s)) \<and>
      (\<forall>e\<in>set (events s).
         action e \<in> {EXPOSE_CLIENT, PROXY_BLOCK, MISS_PROXY_BLOCK, PROXY_DEATH}) \<and>
      (\<forall>e\<in>set (censor_events s). action e \<in> {ENUMERATE_PROXY, MISS_ENUMERATE_PROXY}) \<and>
      (\<forall>evs. run seed num_proxies VICTIM_SET schedule = Returned evs \<longrightarrow>
         evs = events s @ censor_events s)"
proof -
  define s where "s = exec VICTIM_SET schedule (init seed num_proxies)"
  have o: "logs_ordered s"
    unfolding s_def by (intro exec_logs_ordered init_logs_ordered)
  have r: "\<forall>evs. run seed num_proxies VICTIM_SET schedule = Returned evs \<longrightarrow>
         evs = events s @ censor_events s"
    by (auto simp: run_def s_def Let_def split: option.splits if_splits)
  from o r exec_events_prefix [of s VICTIM_SET later] show ?thesis
    by (simp add: s_def [symmetric] Let_def logs_ordered_def)
qed

theorem run_returns_two_logs_witness:
  "run zero_seed 2 2 [Arrive, Advance 1, Block, Advance 1, Arrive, Advance 1, Block, Arrive] =
     Returned
       [\<lparr>time = 1, action = PROXY_BLOCK, active_proxy_ids = [1], blocked_proxy_ids = [0],
         subject_proxy = 0, system_health = 50\<rparr>,
        \<lparr>time = 3, action = PROXY_DEATH, active_proxy_ids = [], blocked_proxy_ids = [0, 1],
         subject_proxy = 1, system_health = 0\<rparr>,
        \<lparr>time = 0, action = ENUMERATE_PROXY, active_proxy_ids = [0], blocked_proxy_ids = [],
         subject_proxy = 0, system_health = 0\<rparr>,
        \<lparr>time = 2, action = ENUMERATE_PROXY, active_proxy_ids = [1], blocked_proxy_ids = [0],
         subject_proxy = 1, system_health = 0\<rparr>] \<and>
   map time (events (exec 2
     [Arrive, Advance 1, Block, Advance 1, Arrive, Advance 1, Block, Arrive]
     (init zero_seed 2))) = [1, 3] \<and>
   map time (censor_events (exec 2
     [Arrive, Advance 1, Block, Advance 1, Arrive, Advance 1, Block, Arrive]
     (init zero_seed 2))) = [0, 2]"
  using run_returns_two_logs
    [of 2 "[Arrive, Advance 1, Block, Advance 1, Arrive, Advance 1, Block, Arrive]" zero_seed 2 "[]"]
  by (simp add: model_defs float_defs run_def)

text \<open>
  Claim C2, as stated, fails: the returned sequence is not ordered by event time. With
  one proxy, a malicious client at time 0 and the censor's block at time 1, \<open>run\<close>
  returns the \<open>PROXY_DEATH\<close> of time 1 before the \<open>ENUMERATE_PROXY\<close> of time 0.
\<close>

theorem run_not_ordered_by_time:
  "run zero_seed 1 2 [Arrive, Advance 1, Block, Arrive] =
     Returned
       [\<lparr>time = 1, action = PROXY_DEATH, active_proxy_ids = [], blocked_proxy_ids = [0],
         subject_proxy = 0, system_health = 0\<rparr>,
        \<lparr>time = 0, action = ENUMERATE_PROXY, active_proxy_ids = [0], blocked_proxy_ids = [],
         subject_proxy = 0, system_health = 0\<rparr>] \<and>
   \<not> sorted (map time
       [\<lparr>time = 1, action = PROXY_DEATH, active_proxy_ids = [], blocked_proxy_ids = [0],
         subject_proxy = 0, system_health = 0\<rparr>,
        \<lparr>time = 0, action = ENUMERATE_PROXY, active_proxy_ids = [0], blocked_proxy_ids = [],
         subject_proxy = 0, system_health = 0\<rparr>])"
  by (simp add: model_defs run_def)

text \<open>
  Claim C9. A run that reaches depletion (it started with at least one proxy and none is
  active any more) has exactly one \<open>PROXY_DEATH\<close> event in its two logs, and no run has
  more than one. The event is recorded by \<open>notify_block\<close> when it removes the last
  active proxy, with health 0 and in place of \<open>PROXY_BLOCK\<close>, and it is the last event
  of the distributor's log: after it neither log grows, however the run goes on. In
  particular every list of events that \<open>run\<close> returns holds exactly one
  \<open>PROXY_DEATH\<close>.
\<close>

theorem exactly_one_proxy_death:
  "let s = exec VICTIM_SET schedule (init seed num_proxies);
       s' = exec VICTIM_SET later s
   in deaths s \<le> 1 \<and>
      (deaths s = 1 \<longleftrightarrow> 0 < num_proxies \<and> proxies s = []) \<and>
      (deaths s = 1 \<longrightarrow>
         action (last (events s)) = PROXY_DEATH \<and> system_health (last (events s)) = 0 \<and>
         events s' = events s \<and> censor_events s' = censor_events s) \<and>
      (\<forall>evs. run seed num_proxies VICTIM_SET schedule = Returned evs \<longrightarrow>
         length (filter (\<lambda>e. action e = PROXY_DEATH) evs) = 1) \<and>
      (p \<in> set (proxies t) \<and> p \<notin> set (blocked t) \<and> remove1 p (proxies t) = [] \<longrightarrow>
         notify_block p t =
           (Inl StopProcess,
            t\<lparr>proxies := [], blocked := blocked t @ [p],
              events := events t @
                [\<lparr>time = now t, action = PROXY_DEATH, active_proxy_ids = [],
                  blocked_proxy_ids = blocked t @ [p], subject_proxy = p,
                  system_health = 0\<rparr>]\<rparr>))"
proof -
  define s where "s = exec VICTIM_SET schedule (init seed num_proxies)"
  have i: "death_recorded num_proxies s"
    unfolding s_def by (intro exec_death_recorded init_death_recorded)
  have 1: "deaths s \<le> 1" and 2: "deaths s = 1 \<longleftrightarrow> 0 < num_proxies \<and> proxies s = []"
    using i by (auto simp: death_recorded_def)
  have 3: "deaths s = 1 \<longrightarrow>
         action (last (events s)) = PROXY_DEATH \<and> system_health (last (events s)) = 0 \<and>
         events (exec VICTIM_SET later s) = events s \<and>
         censor_events (exec VICTIM_SET later s) = censor_events s"
  proof
    assume "deaths s = 1"
    with i have d: "proxies s = []" "censor_done s"
      "action (last (events s)) = PROXY_DEATH" "system_health (last (events s)) = 0"
      by (auto simp: death_recorded_def)
    with exec_after_death [OF d(1,2), of VICTIM_SET later]
    show "action (last (events s)) = PROXY_DEATH \<and> system_health (last (events s)) = 0 \<and>
         events (exec VICTIM_SET later s) = events s \<and>
         censor_events (exec VICTIM_SET later s) = censor_events s"
      by simp
  qed
  have 4: "\<forall>evs. run seed num_proxies VICTIM_SET schedule = Returned evs \<longrightarrow>
         length (filter (\<lambda>e. action e = PROXY_DEATH) evs) = 1"
    using i
    by (auto simp: run_def s_def [symmetric] Let_def death_recorded_def deaths_def
        split: option.splits if_splits)
  have 5: "p \<in> set (proxies t) \<and> p \<notin> set (blocked t) \<and> remove1 p (proxies t) = [] \<longrightarrow>
         notify_block p t =
           (Inl StopProcess,
            t\<lparr>proxies := [], blocked := blocked t @ [p],
              events := events t @
                [\<lparr>time = now t, action = PROXY_DEATH, active_proxy_ids = [],
                  blocked_proxy_ids = blocked t @ [p], subject_proxy = p,
                  system_health = 0\<rparr>]\<rparr>)"
    by (simp add: nb_death create_event_def)
  from 1 2 3 4 5 show ?thesis
    by (simp add: s_def [symmetric] Let_def)
qed

theorem exactly_one_proxy_death_witness:
  "map action (events (exec 2 [Arrive, Advance 1, Block] (init zero_seed 1))) = [PROXY_DEATH] \<and>
   map system_health (events (exec 2 [Arrive, Advance 1, Block] (init zero_seed 1))) = [0] \<and>
   proxies (exec 2 [Arrive, Advance 1, Block] (init zero_seed 1)) = [] \<and>
   deaths (exec 2 [Arrive, Advance 1, Block] (init zero_seed 1)) = 1 \<and>
   events (exec 2 [Arrive, Block, Advance 1, Arrive]
            (exec 2 [Arrive, Advance 1, Block] (init zero_seed 1))) =
     events (exec 2 [Arrive, Advance 1, Block] (init zero_seed 1)) \<and>
   run zero_seed 1 2 [Arrive, Advance 1, Block, Arrive, Block, Advance 1, Arrive] =
     Returned
       [\<lparr>time = 1, action = PROXY_DEATH, active_proxy_ids = [], blocked_proxy_ids = [0],
         subject_proxy = 0, system_health = 0\<rparr>,
        \<lparr>time = 0, action = ENUMERATE_PROXY, active_proxy_ids = [0], blocked_proxy_ids = [],
         subject_proxy = 0, system_health = 0\<rparr>] \<and>
   fst (notify_block 0 (init zero_seed 1)) = Inl StopProcess \<and>
   map action (events (snd (notify_block 0 (init zero_seed 1)))) = [PROXY_DEATH] \<and>
   map action (events (exec 2 [Arrive, Block, Arrive, Block, Arrive, Block, Arrive]
     (init zero_seed 3))) = [PROXY_BLOCK, PROXY_BLOCK, PROXY_DEATH]"
  using exactly_one_proxy_death
    [of 2 "[Arrive, Advance 1, Block]" zero_seed 1 "[Arrive, Block, Advance 1, Arrive]" 0
      "init zero_seed 1"]
    exactly_one_proxy_death
    [of 2 "[Arrive, Advance 1, Block, Arrive, Block, Advance 1, Arrive]" zero_seed 1 "[]" 0
      "init zero_seed 1"]
    exactly_one_proxy_death
    [of 2 "[Arrive, Block, Arrive, Block, Arrive, Block, Arrive]" zero_seed 3 "[]" 0
      "init zero_seed 1"]
  by (simp add: model_defs deaths_def run_def)

end
